theory Spec2Isabelle
  imports Complex_Main
begin

section \<open>The Flappy Bird component: data model\<close>

text \<open>
  The component keeps its state in React hooks: \<^verbatim>\<open>bird\<close>, \<^verbatim>\<open>pipes\<close>, \<^verbatim>\<open>gameStarted\<close>,
  \<^verbatim>\<open>gameOver\<close>, \<^verbatim>\<open>score\<close>, \<^verbatim>\<open>highScore\<close>, \<^verbatim>\<open>gameWidth\<close> and \<^verbatim>\<open>gameHeight\<close>. The model
  collects them in one record and passes it through every operation. The entry
  \<^verbatim>\<open>flappyHighScore\<close> of \<^verbatim>\<open>localStorage\<close> is one more field, \<open>storage\<close>.

  JavaScript numbers are IEEE-754 doubles. The model takes positions, speeds and sizes as
  exact rationals and the two scores as integers: rounding, infinities and NaN are not
  modelled. Each call of \<^verbatim>\<open>Math.random()\<close> is a parameter \<open>r\<close> of the operation that
  makes it.
\<close>

definition BIRD_WIDTH :: rat where "BIRD_WIDTH = 40"
definition BIRD_HEIGHT :: rat where "BIRD_HEIGHT = 30"
definition PIPE_WIDTH :: rat where "PIPE_WIDTH = 60"
definition PIPE_GAP :: rat where "PIPE_GAP = 200"
definition GRAVITY :: rat where "GRAVITY = 4 / 10"
definition JUMP_FORCE :: rat where "JUMP_FORCE = - 7"
definition PIPE_SPEED :: rat where "PIPE_SPEED = 2"

record bird_state =
  bird_x :: rat
  bird_y :: rat
  velocity :: rat

record pipe_state =
  pipe_x :: rat
  topHeight :: rat
  bottomHeight :: rat
  passed :: bool

text \<open>A JavaScript string is a sequence of UTF-16 code units.\<close>

type_synonym js_string = "nat list"

record game =
  bird :: bird_state
  pipes :: "pipe_state list"
  gameStarted :: bool
  gameOver :: bool
  score :: int
  highScore :: int
  gameWidth :: rat
  gameHeight :: rat
  storage :: "js_string option"

text \<open>The initial values of the hooks; \<open>st\<close> is what the browser has stored.\<close>

definition initial :: "js_string option \<Rightarrow> game" where
  "initial st =
     \<lparr>bird = \<lparr>bird_x = 100, bird_y = 300, velocity = 0\<rparr>,
      pipes = [],
      gameStarted = False,
      gameOver = False,
      score = 0,
      highScore = 0,
      gameWidth = 800,
      gameHeight = 600,
      storage = st\<rparr>"

text \<open>
  The spec's three states, read off the two flags as the overlays of the render do: the
  start screen shows while \<^verbatim>\<open>!gameStarted\<close>, the game-over screen while \<^verbatim>\<open>gameOver\<close>.
\<close>

datatype phase = Idle | Running | Over

definition phase_of :: "game \<Rightarrow> phase" where
  "phase_of g = (if \<not> gameStarted g then Idle else if gameOver g then Over else Running)"

section \<open>Operations of \<^verbatim>\<open>Page\<close> (src/app/page.js)\<close>

subsection \<open>jump and resetGame\<close>

definition jump :: "rat \<Rightarrow> game \<Rightarrow> game" where
  "jump r g =
     (if \<not> gameStarted g then
        (let topH = r * (gameHeight g - PIPE_GAP - 100) + 50
         in g\<lparr>gameStarted := True,
               pipes := [\<lparr>pipe_x = gameWidth g,
                          topHeight = topH,
                          bottomHeight = gameHeight g - topH - PIPE_GAP,
                          passed = False\<rparr>]\<rparr>)
      else if gameOver g then g
      else g\<lparr>bird := (bird g)\<lparr>velocity := JUMP_FORCE\<rparr>\<rparr>)"

definition resetGame :: "game \<Rightarrow> game" where
  "resetGame g =
     g\<lparr>bird := \<lparr>bird_x = 100, bird_y = gameHeight g / 2, velocity = 0\<rparr>,
       pipes := [],
       gameStarted := False,
       gameOver := False,
       score := 0\<rparr>"

subsection \<open>The interval callback\<close>

text \<open>
  The function given to \<^verbatim>\<open>setBird\<close>. The second component tells whether it called
  \<^verbatim>\<open>setGameOver(true)\<close>.
\<close>

definition birdUpdater :: "rat \<Rightarrow> bird_state \<Rightarrow> bird_state \<times> bool" where
  "birdUpdater gh prev =
     (let newY = bird_y prev + velocity prev;
          newVelocity = velocity prev + GRAVITY
      in if newY \<le> 0 \<or> newY \<ge> gh - BIRD_HEIGHT then (prev, True)
         else (prev\<lparr>bird_y := newY, velocity := newVelocity\<rparr>, False))"

text \<open>
  The function given to \<^verbatim>\<open>setPipes\<close>. \<^verbatim>\<open>newPipes[newPipes.length - 1]\<close> is read only
  when the list is not empty, as in the source, where \<^verbatim>\<open>||\<close> short-circuits.
\<close>

definition pipesUpdater :: "rat \<Rightarrow> rat \<Rightarrow> rat \<Rightarrow> pipe_state list \<Rightarrow> pipe_state list" where
  "pipesUpdater r gw gh prev =
     (let moved = map (\<lambda>pipe. pipe\<lparr>pipe_x := pipe_x pipe - PIPE_SPEED\<rparr>) prev;
          newPipes = filter (\<lambda>pipe. pipe_x pipe > - PIPE_WIDTH) moved
      in if newPipes = [] \<or> pipe_x (last newPipes) < gw - 250 then
           (let topHeight' = r * (gh - PIPE_GAP - 100) + 50
            in newPipes @ [\<lparr>pipe_x = gw,
                            topHeight = topHeight',
                            bottomHeight = gh - topHeight' - PIPE_GAP,
                            passed = False\<rparr>])
         else newPipes)"

definition gameLoop :: "rat \<Rightarrow> game \<Rightarrow> game" where
  "gameLoop r g =
     (case birdUpdater (gameHeight g) (bird g) of
        (b, out) \<Rightarrow>
          g\<lparr>bird := b,
            gameOver := (if out then True else gameOver g),
            pipes := pipesUpdater r (gameWidth g) (gameHeight g) (pipes g)\<rparr>)"

subsection \<open>Collision detection and scoring\<close>

text \<open>The condition of the first \<^verbatim>\<open>if\<close> in the loop of \<^verbatim>\<open>checkCollisions\<close>.\<close>

definition collides :: "bird_state \<Rightarrow> rat \<Rightarrow> pipe_state \<Rightarrow> bool" where
  "collides b gh pipe \<longleftrightarrow>
     bird_x b + BIRD_WIDTH > pipe_x pipe \<and>
     bird_x b < pipe_x pipe + PIPE_WIDTH \<and>
     (bird_y b < topHeight pipe \<or> bird_y b + BIRD_HEIGHT > gh - bottomHeight pipe)"

text \<open>
  The \<^verbatim>\<open>for\<close> loop over \<^verbatim>\<open>newPipes\<close>, from index \<open>i\<close> on. It returns \<^verbatim>\<open>collided\<close>, the
  rest of \<^verbatim>\<open>newPipes\<close> as the loop leaves it, and what it has added to \<^verbatim>\<open>newlyPassed\<close>.
  \<^verbatim>\<open>break\<close> leaves the pipes from the colliding one on untouched.
\<close>

fun collisionLoop :: "bird_state \<Rightarrow> rat \<Rightarrow> pipe_state list \<Rightarrow> bool \<times> pipe_state list \<times> int" where
  "collisionLoop b gh [] = (False, [], 0)"
| "collisionLoop b gh (pipe # rest) =
     (if collides b gh pipe then (True, pipe # rest, 0)
      else if \<not> passed pipe \<and> bird_x b > pipe_x pipe + PIPE_WIDTH then
        (case collisionLoop b gh rest of
           (collided, newPipes, newlyPassed) \<Rightarrow>
             (collided, pipe\<lparr>passed := True\<rparr> # newPipes, newlyPassed + 1))
      else
        (case collisionLoop b gh rest of
           (collided, newPipes, newlyPassed) \<Rightarrow> (collided, pipe # newPipes, newlyPassed)))"

text \<open>\<^verbatim>\<open>Number.prototype.toString\<close> on an integer: its decimal digits, after \<^verbatim>\<open>-\<close> if negative.\<close>

fun digits :: "nat \<Rightarrow> js_string" where
  "digits n = (if n < 10 then [48 + n] else digits (n div 10) @ [48 + n mod 10])"

declare digits.simps [simp del]

definition toString :: "int \<Rightarrow> js_string" where
  "toString n = (if n < 0 then 45 # digits (nat (- n)) else digits (nat n))"

text \<open>
  The effect that runs \<^verbatim>\<open>checkCollisions\<close>, with its guard. The function given to
  \<^verbatim>\<open>setScore\<close> compares with the \<^verbatim>\<open>highScore\<close> of the render the effect belongs to.
\<close>

definition checkCollisions :: "game \<Rightarrow> game" where
  "checkCollisions g =
     (if \<not> gameStarted g \<or> gameOver g then g
      else
        (case collisionLoop (bird g) (gameHeight g) (pipes g) of
           (collided, newPipes, newlyPassed) \<Rightarrow>
             if collided then g\<lparr>gameOver := True\<rparr>
             else if newlyPassed > 0 then
               (let newScore = score g + newlyPassed
                in if newScore > highScore g then
                     g\<lparr>pipes := newPipes, score := newScore, highScore := newScore,
                       storage := Some (toString newScore)\<rparr>
                   else g\<lparr>pipes := newPipes, score := newScore\<rparr>)
             else g))"

subsection \<open>Loading the high score\<close>

text \<open>
  \<^verbatim>\<open>parseInt\<close> without a radix, after ECMAScript: leading white space is dropped, then one
  sign, then \<^verbatim>\<open>0x\<close> or \<^verbatim>\<open>0X\<close> selects radix 16; the longest prefix of digits is the
  number, and no digit at all gives NaN, here \<open>None\<close>.
\<close>

definition isWhiteSpace :: "nat \<Rightarrow> bool" where
  "isWhiteSpace c \<longleftrightarrow>
     c \<in> {9, 10, 11, 12, 13, 32, 160, 5760, 8232, 8233, 8239, 8287, 12288, 65279} \<or>
     (8192 \<le> c \<and> c \<le> 8202)"

definition digitValue :: "nat \<Rightarrow> nat option" where
  "digitValue c =
     (if 48 \<le> c \<and> c \<le> 57 then Some (c - 48)
      else if 97 \<le> c \<and> c \<le> 122 then Some (c - 87)
      else if 65 \<le> c \<and> c \<le> 90 then Some (c - 55)
      else None)"

definition isDigit :: "nat \<Rightarrow> nat \<Rightarrow> bool" where
  "isDigit R c \<longleftrightarrow> (case digitValue c of None \<Rightarrow> False | Some d \<Rightarrow> d < R)"

definition mathInt :: "nat \<Rightarrow> js_string \<Rightarrow> nat" where
  "mathInt R Z = foldl (\<lambda>acc c. acc * R + the (digitValue c)) 0 Z"

definition parseInt :: "js_string \<Rightarrow> int option" where
  "parseInt inputString =
     (let S = dropWhile isWhiteSpace inputString;
          sign = (if S \<noteq> [] \<and> hd S = 45 then - 1 else 1);
          S1 = (if S \<noteq> [] \<and> (hd S = 43 \<or> hd S = 45) then tl S else S);
          hex = (length S1 \<ge> 2 \<and> hd S1 = 48 \<and> (hd (tl S1) = 120 \<or> hd (tl S1) = 88));
          R = (if hex then 16 else 10);
          S2 = (if hex then drop 2 S1 else S1);
          Z = takeWhile (isDigit R) S2
      in if Z = [] then None else Some (sign * int (mathInt R Z)))"

text \<open>
  \<^verbatim>\<open>localStorage.getItem(...) || "0"\<close>: a missing entry (\<^verbatim>\<open>null\<close>) and the empty string are
  falsy. Then \<^verbatim>\<open>Number.isNaN(stored) ? 0 : stored\<close>.
\<close>

definition loadHighScore :: "js_string option \<Rightarrow> int" where
  "loadHighScore item =
     (let text = (case item of None \<Rightarrow> [48] | Some s \<Rightarrow> if s = [] then [48] else s)
      in case parseInt text of None \<Rightarrow> 0 | Some stored \<Rightarrow> stored)"

text \<open>The effect that runs once on mount; \<open>w\<close> and \<open>h\<close> are the window's inner sizes.\<close>

definition mount :: "rat \<Rightarrow> rat \<Rightarrow> game \<Rightarrow> game" where
  "mount w h g =
     g\<lparr>gameWidth := w,
       gameHeight := h,
       bird := (bird g)\<lparr>bird_y := h / 2\<rparr>,
       highScore := loadHighScore (storage g)\<rparr>"

definition handleResize :: "rat \<Rightarrow> rat \<Rightarrow> game \<Rightarrow> game" where
  "handleResize w h g = g\<lparr>gameWidth := w, gameHeight := h\<rparr>"

subsection \<open>The driver\<close>

text \<open>
  The interval exists only while the effect's guard \<^verbatim>\<open>!gameStarted || gameOver\<close> fails, so
  a tick in another state does nothing. The collision effect depends on \<^verbatim>\<open>bird\<close>,
  \<^verbatim>\<open>pipes\<close>, both flags, \<^verbatim>\<open>highScore\<close> and \<^verbatim>\<open>gameHeight\<close>: it runs after every change of
  one of them, hence after each event.
\<close>

definition tick :: "rat \<Rightarrow> game \<Rightarrow> game" where
  "tick r g = (if \<not> gameStarted g \<or> gameOver g then g else checkCollisions (gameLoop r g))"

datatype event = Jump rat | Tick rat | Reset | Resize rat rat

fun step :: "event \<Rightarrow> game \<Rightarrow> game" where
  "step (Jump r) g = checkCollisions (jump r g)"
| "step (Tick r) g = tick r g"
| "step Reset g = checkCollisions (resetGame g)"
| "step (Resize w h) g = checkCollisions (handleResize w h g)"

fun run :: "event list \<Rightarrow> game \<Rightarrow> game" where
  "run [] g = g"
| "run (e # es) g = run es (step e g)"

inductive reachable :: "game \<Rightarrow> bool" where
  reachable_initial: "reachable (initial st)"
| reachable_mount: "reachable (mount w h (initial st))"
| reachable_step: "reachable g \<Longrightarrow> reachable (step e g)"

text \<open>Jump and tick events, the ones a player produces during a run.\<close>

fun playing :: "event \<Rightarrow> bool" where
  "playing (Jump r) = True"
| "playing (Tick r) = True"
| "playing Reset = False"
| "playing (Resize w h) = False"

text \<open>A string literal as code units.\<close>

definition js :: "string \<Rightarrow> js_string" where
  "js s = map of_char s"

section \<open>Operations of \<^verbatim>\<open>FlappyGame\<close> (the second component file)\<close>

text \<open>
  The second variant of the component declares its own constants and hooks and has the
  collision check inline in its effect. It is translated on its own, from its own text.
\<close>

definition FlappyGame_BIRD_WIDTH :: rat where "FlappyGame_BIRD_WIDTH = 40"
definition FlappyGame_BIRD_HEIGHT :: rat where "FlappyGame_BIRD_HEIGHT = 30"
definition FlappyGame_PIPE_WIDTH :: rat where "FlappyGame_PIPE_WIDTH = 60"
definition FlappyGame_PIPE_GAP :: rat where "FlappyGame_PIPE_GAP = 200"
definition FlappyGame_GRAVITY :: rat where "FlappyGame_GRAVITY = 4 / 10"
definition FlappyGame_JUMP_FORCE :: rat where "FlappyGame_JUMP_FORCE = - 7"
definition FlappyGame_PIPE_SPEED :: rat where "FlappyGame_PIPE_SPEED = 2"

definition FlappyGame_initial :: "js_string option \<Rightarrow> game" where
  "FlappyGame_initial st =
     \<lparr>bird = \<lparr>bird_x = 100, bird_y = 300, velocity = 0\<rparr>,
      pipes = [],
      gameStarted = False,
      gameOver = False,
      score = 0,
      highScore = 0,
      gameWidth = 800,
      gameHeight = 600,
      storage = st\<rparr>"

definition FlappyGame_jump :: "rat \<Rightarrow> game \<Rightarrow> game" where
  "FlappyGame_jump r g =
     (if \<not> gameStarted g then
        (let topH = r * (gameHeight g - FlappyGame_PIPE_GAP - 100) + 50
         in g\<lparr>gameStarted := True,
               pipes := [\<lparr>pipe_x = gameWidth g,
                          topHeight = topH,
                          bottomHeight = gameHeight g - topH - FlappyGame_PIPE_GAP,
                          passed = False\<rparr>]\<rparr>)
      else if gameOver g then g
      else g\<lparr>bird := (bird g)\<lparr>velocity := FlappyGame_JUMP_FORCE\<rparr>\<rparr>)"

definition FlappyGame_resetGame :: "game \<Rightarrow> game" where
  "FlappyGame_resetGame g =
     g\<lparr>bird := \<lparr>bird_x = 100, bird_y = gameHeight g / 2, velocity = 0\<rparr>,
       pipes := [],
       gameStarted := False,
       gameOver := False,
       score := 0\<rparr>"

definition FlappyGame_handleResize :: "rat \<Rightarrow> rat \<Rightarrow> game \<Rightarrow> game" where
  "FlappyGame_handleResize w h g = g\<lparr>gameWidth := w, gameHeight := h\<rparr>"

definition FlappyGame_mount :: "rat \<Rightarrow> rat \<Rightarrow> game \<Rightarrow> game" where
  "FlappyGame_mount w h g =
     (let text = (case storage g of None \<Rightarrow> [48] | Some s \<Rightarrow> if s = [] then [48] else s);
          stored = parseInt text
      in g\<lparr>gameWidth := w,
            gameHeight := h,
            bird := (bird g)\<lparr>bird_y := h / 2\<rparr>,
            highScore := (case stored of None \<Rightarrow> 0 | Some n \<Rightarrow> n)\<rparr>)"

definition FlappyGame_gameLoop :: "rat \<Rightarrow> game \<Rightarrow> game" where
  "FlappyGame_gameLoop r g =
     (let prev = bird g;
          newY = bird_y prev + velocity prev;
          newVelocity = velocity prev + FlappyGame_GRAVITY;
          out = (newY \<le> 0 \<or> newY \<ge> gameHeight g - FlappyGame_BIRD_HEIGHT);
          moved = map (\<lambda>pipe. pipe\<lparr>pipe_x := pipe_x pipe - FlappyGame_PIPE_SPEED\<rparr>) (pipes g);
          newPipes = filter (\<lambda>pipe. pipe_x pipe > - FlappyGame_PIPE_WIDTH) moved;
          spawn = (newPipes = [] \<or> pipe_x (last newPipes) < gameWidth g - 250);
          topHeight' = r * (gameHeight g - FlappyGame_PIPE_GAP - 100) + 50
      in g\<lparr>bird := (if out then prev else prev\<lparr>bird_y := newY, velocity := newVelocity\<rparr>),
            gameOver := (if out then True else gameOver g),
            pipes := (if spawn then
                        newPipes @ [\<lparr>pipe_x = gameWidth g,
                                     topHeight = topHeight',
                                     bottomHeight = gameHeight g - topHeight' - FlappyGame_PIPE_GAP,
                                     passed = False\<rparr>]
                      else newPipes)\<rparr>)"

text \<open>
  The loop of the collision effect, with its variables \<^verbatim>\<open>collided\<close> and \<^verbatim>\<open>newlyPassed\<close> as
  accumulators and \<open>seen\<close> the pipes behind index \<open>i\<close>.
\<close>

fun FlappyGame_loop ::
  "bird_state \<Rightarrow> rat \<Rightarrow> pipe_state list \<Rightarrow> int \<Rightarrow> pipe_state list \<Rightarrow>
   bool \<times> pipe_state list \<times> int" where
  "FlappyGame_loop b gh seen newlyPassed [] = (False, seen, newlyPassed)"
| "FlappyGame_loop b gh seen newlyPassed (pipe # rest) =
     (if bird_x b + FlappyGame_BIRD_WIDTH > pipe_x pipe \<and>
         bird_x b < pipe_x pipe + FlappyGame_PIPE_WIDTH \<and>
         (bird_y b < topHeight pipe \<or>
          bird_y b + FlappyGame_BIRD_HEIGHT > gh - bottomHeight pipe)
      then (True, seen @ pipe # rest, newlyPassed)
      else if \<not> passed pipe \<and> bird_x b > pipe_x pipe + FlappyGame_PIPE_WIDTH
      then FlappyGame_loop b gh (seen @ [pipe\<lparr>passed := True\<rparr>]) (newlyPassed + 1) rest
      else FlappyGame_loop b gh (seen @ [pipe]) newlyPassed rest)"

definition FlappyGame_collisionEffect :: "game \<Rightarrow> game" where
  "FlappyGame_collisionEffect g =
     (if \<not> gameStarted g \<or> gameOver g then g
      else
        (case FlappyGame_loop (bird g) (gameHeight g) [] 0 (pipes g) of
           (collided, newPipes, newlyPassed) \<Rightarrow>
             if collided then g\<lparr>gameOver := True\<rparr>
             else if newlyPassed > 0 then
               (let newScore = score g + newlyPassed
                in if newScore > highScore g then
                     g\<lparr>pipes := newPipes, score := newScore, highScore := newScore,
                       storage := Some (toString newScore)\<rparr>
                   else g\<lparr>pipes := newPipes, score := newScore\<rparr>)
             else g))"

definition FlappyGame_tick :: "rat \<Rightarrow> game \<Rightarrow> game" where
  "FlappyGame_tick r g =
     (if \<not> gameStarted g \<or> gameOver g then g
      else FlappyGame_collisionEffect (FlappyGame_gameLoop r g))"

fun FlappyGame_step :: "event \<Rightarrow> game \<Rightarrow> game" where
  "FlappyGame_step (Jump r) g = FlappyGame_collisionEffect (FlappyGame_jump r g)"
| "FlappyGame_step (Tick r) g = FlappyGame_tick r g"
| "FlappyGame_step Reset g = FlappyGame_collisionEffect (FlappyGame_resetGame g)"
| "FlappyGame_step (Resize w h) g = FlappyGame_collisionEffect (FlappyGame_handleResize w h g)"

fun FlappyGame_run :: "event list \<Rightarrow> game \<Rightarrow> game" where
  "FlappyGame_run [] g = g"
| "FlappyGame_run (e # es) g = FlappyGame_run es (FlappyGame_step e g)"


section \<open>Notions of the specification\<close>

text \<open>
  The collision predicate in the spec's words: the half-open horizontal spans
  \<open>[x, x + BIRD_WIDTH)\<close> of the bird and \<open>[x, x + PIPE_WIDTH)\<close> of the pipe share a
  point, and the bird reaches above the gap or below it.
\<close>

definition spans_overlap :: "rat \<Rightarrow> rat \<Rightarrow> rat \<Rightarrow> rat \<Rightarrow> bool" where
  "spans_overlap a w c v \<longleftrightarrow> (\<exists>z. a \<le> z \<and> z < a + w \<and> c \<le> z \<and> z < c + v)"

definition spec_collision :: "bird_state \<Rightarrow> rat \<Rightarrow> pipe_state \<Rightarrow> bool" where
  "spec_collision b gh pipe \<longleftrightarrow>
     spans_overlap (bird_x b) BIRD_WIDTH (pipe_x pipe) PIPE_WIDTH \<and>
     (bird_y b < topHeight pipe \<or> bird_y b + BIRD_HEIGHT > gh - bottomHeight pipe)"

text \<open>The number of pipes of a sequence that are marked passed.\<close>

definition passedCount :: "pipe_state list \<Rightarrow> int" where
  "passedCount ps = int (length (filter passed ps))"

text \<open>
  The number of passed pipes that the next tick will drop: those that fail the filter
  of \<open>pipesUpdater\<close> after the shift.
\<close>

definition retiring :: "pipe_state list \<Rightarrow> int" where
  "retiring ps =
     int (length (filter (\<lambda>pipe. passed pipe \<and> \<not> pipe_x pipe - PIPE_SPEED > - PIPE_WIDTH) ps))"

text \<open>
  The number of passed pipes dropped so far in the current run, along a sequence of
  events: \<open>n\<close> before the events, and starting again from 0 at every reset.
\<close>

fun retired :: "int \<Rightarrow> event list \<Rightarrow> game \<Rightarrow> int" where
  "retired n [] g = n"
| "retired n (Reset # es) g = retired 0 es (step Reset g)"
| "retired n (Tick r # es) g =
     retired (if phase_of g = Running then n + retiring (pipes g) else n) es (step (Tick r) g)"
| "retired n (e # es) g = retired n es (step e g)"

section \<open>A sample run\<close>

text \<open>
  A run at the default size of 800 by 600 in which every random draw is \<open>1 / 2\<close>, so
  that every gap spans heights 200 to 400. The first jump starts the game. Then the
  player jumps once every 36 ticks: \<open>- 7\<close> and 36 times \<open>4 / 10\<close> make the velocity
  \<open>37 / 5\<close>, and the 36 steps \<open>- 7, - 33 / 5, \<dots>, 7\<close> of the height add up to 0, so the
  bird is back at height 300 after each round and never leaves 235 to 300.
\<close>

definition flap :: "event list" where
  "flap = Jump (1 / 2) # replicate 36 (Tick (1 / 2))"

definition sample_run :: "nat \<Rightarrow> event list" where
  "sample_run k = Jump (1 / 2) # concat (replicate k flap)"

definition sample_pipe :: "rat \<Rightarrow> bool \<Rightarrow> pipe_state" where
  "sample_pipe x p = \<lparr>pipe_x = x, topHeight = 200, bottomHeight = 200, passed = p\<rparr>"

definition sample_state :: "rat \<Rightarrow> pipe_state list \<Rightarrow> int \<Rightarrow> js_string option \<Rightarrow> game" where
  "sample_state v ps s st =
     \<lparr>bird = \<lparr>bird_x = 100, bird_y = 300, velocity = v\<rparr>,
      pipes = ps, gameStarted = True, gameOver = False, score = s, highScore = s,
      gameWidth = 800, gameHeight = 600, storage = st\<rparr>"

section \<open>Basic facts about the operations\<close>

lemmas constants =
  BIRD_WIDTH_def BIRD_HEIGHT_def PIPE_WIDTH_def PIPE_GAP_def GRAVITY_def JUMP_FORCE_def
  PIPE_SPEED_def

lemmas FlappyGame_constants =
  FlappyGame_BIRD_WIDTH_def FlappyGame_BIRD_HEIGHT_def FlappyGame_PIPE_WIDTH_def
  FlappyGame_PIPE_GAP_def FlappyGame_GRAVITY_def FlappyGame_JUMP_FORCE_def
  FlappyGame_PIPE_SPEED_def

lemma checkCollisions_bird [simp]: "bird (checkCollisions g) = bird g"
  by (simp add: checkCollisions_def Let_def split: prod.splits)

lemma checkCollisions_gameStarted [simp]: "gameStarted (checkCollisions g) = gameStarted g"
  by (simp add: checkCollisions_def Let_def split: prod.splits)

lemma checkCollisions_gameWidth [simp]: "gameWidth (checkCollisions g) = gameWidth g"
  by (simp add: checkCollisions_def Let_def split: prod.splits)

lemma checkCollisions_gameHeight [simp]: "gameHeight (checkCollisions g) = gameHeight g"
  by (simp add: checkCollisions_def Let_def split: prod.splits)

lemma checkCollisions_over: "gameOver g \<Longrightarrow> checkCollisions g = g"
  by (simp add: checkCollisions_def)

lemma checkCollisions_idle: "\<not> gameStarted g \<Longrightarrow> checkCollisions g = g"
  by (simp add: checkCollisions_def)

lemma running_flags: "phase_of g = Running \<longleftrightarrow> gameStarted g \<and> \<not> gameOver g"
  by (simp add: phase_of_def)

lemma over_flags: "phase_of g = Over \<longleftrightarrow> gameStarted g \<and> gameOver g"
  by (simp add: phase_of_def)


lemma run_append: "run (es @ fs) g = run fs (run es g)"
  by (induction es arbitrary: g) simp_all

lemma reachable_run: "reachable g \<Longrightarrow> reachable (run es g)"
  by (induction es arbitrary: g) (simp_all add: reachable_step)


lemma parseInt_zero: "parseInt [48] = Some 0"
  by (simp add: parseInt_def isWhiteSpace_def isDigit_def digitValue_def mathInt_def Let_def)

lemma loadHighScore_None: "loadHighScore None = 0"
  by (simp add: loadHighScore_def parseInt_zero)

lemma js_literals: "js [] = []" "js (c # cs) = of_char c # js cs"
  by (simp_all add: js_def)

text \<open>
  The collision effect runs again after its own changes of \<^verbatim>\<open>pipes\<close>, \<^verbatim>\<open>score\<close> and
  \<^verbatim>\<open>highScore\<close>. The second run changes nothing, so one application stands for all.
\<close>

lemma collisionLoop_again:
  "collisionLoop b gh ps = (False, ps', n) \<Longrightarrow> collisionLoop b gh ps' = (False, ps', 0)"
proof (induction ps arbitrary: ps' n)
  case Nil
  then show ?case by simp
next
  case (Cons pipe rest)
  obtain c qs k where rest: "collisionLoop b gh rest = (c, qs, k)"
    by (cases "collisionLoop b gh rest")
  from Cons.prems rest have miss: "\<not> collides b gh pipe" and c: "\<not> c"
    by (auto split: if_splits)
  from Cons.IH rest c have again: "collisionLoop b gh qs = (False, qs, 0)"
    by simp
  show ?case
  proof (cases "\<not> passed pipe \<and> bird_x b > pipe_x pipe + PIPE_WIDTH")
    case True
    with Cons.prems rest miss have "ps' = pipe\<lparr>passed := True\<rparr> # qs"
      by auto
    with again miss show ?thesis
      by (simp add: collides_def)
  next
    case False
    with Cons.prems rest miss have "ps' = pipe # qs"
      by auto
    with again miss False show ?thesis
      by auto
  qed
qed

lemma checkCollisions_idem: "checkCollisions (checkCollisions g) = checkCollisions g"
proof (cases "\<not> gameStarted g \<or> gameOver g")
  case True
  then show ?thesis by (simp add: checkCollisions_def)
next
  case False
  obtain c ps n where loop: "collisionLoop (bird g) (gameHeight g) (pipes g) = (c, ps, n)"
    by (cases "collisionLoop (bird g) (gameHeight g) (pipes g)")
  show ?thesis
  proof (cases c)
    case True
    with False loop show ?thesis by (simp add: checkCollisions_def)
  next
    case no: False
    with loop have "collisionLoop (bird g) (gameHeight g) ps = (False, ps, 0)"
      by (simp add: collisionLoop_again)
    with False loop no show ?thesis
      by (simp add: checkCollisions_def Let_def)
  qed
qed

section \<open>The sample run, evaluated\<close>

lemma toString_1: "toString 1 = [49]"
  by (simp add: toString_def digits.simps)

lemmas sample_eval =
  flap_def sample_pipe_def sample_state_def eval_nat_numeral initial_def jump_def tick_def
  gameLoop_def birdUpdater_def pipesUpdater_def checkCollisions_def collides_def constants
  Let_def toString_1

text \<open>One round from each of the states in which the sample run begins a round.\<close>

lemma flap_1:
  "run flap (sample_state (0) [sample_pipe 800 False] 0 None) =
     sample_state (37 / 5) [sample_pipe 728 False] 0 None"
  by (simp add: sample_eval)

lemma flap_2:
  "run flap (sample_state (37 / 5) [sample_pipe 728 False] 0 None) =
     sample_state (37 / 5) [sample_pipe 656 False] 0 None"
  by (simp add: sample_eval)

lemma flap_3:
  "run flap (sample_state (37 / 5) [sample_pipe 656 False] 0 None) =
     sample_state (37 / 5) [sample_pipe 584 False] 0 None"
  by (simp add: sample_eval)

lemma flap_4:
  "run flap (sample_state (37 / 5) [sample_pipe 584 False] 0 None) =
     sample_state (37 / 5) [sample_pipe 512 False, sample_pipe 764 False] 0 None"
  by (simp add: sample_eval)

lemma flap_5:
  "run flap (sample_state (37 / 5) [sample_pipe 512 False, sample_pipe 764 False] 0 None) =
     sample_state (37 / 5) [sample_pipe 440 False, sample_pipe 692 False] 0 None"
  by (simp add: sample_eval)

lemma flap_6:
  "run flap (sample_state (37 / 5) [sample_pipe 440 False, sample_pipe 692 False] 0 None) =
     sample_state (37 / 5) [sample_pipe 368 False, sample_pipe 620 False] 0 None"
  by (simp add: sample_eval)

lemma flap_7:
  "run flap (sample_state (37 / 5) [sample_pipe 368 False, sample_pipe 620 False] 0 None) =
     sample_state (37 / 5) [sample_pipe 296 False, sample_pipe 548 False, sample_pipe 800 False] 0 None"
  by (simp add: sample_eval)

lemma flap_8:
  "run flap (sample_state (37 / 5) [sample_pipe 296 False, sample_pipe 548 False, sample_pipe 800 False] 0 None) =
     sample_state (37 / 5) [sample_pipe 224 False, sample_pipe 476 False, sample_pipe 728 False] 0 None"
  by (simp add: sample_eval)

lemma flap_9:
  "run flap (sample_state (37 / 5) [sample_pipe 224 False, sample_pipe 476 False, sample_pipe 728 False] 0 None) =
     sample_state (37 / 5) [sample_pipe 152 False, sample_pipe 404 False, sample_pipe 656 False] 0 None"
  by (simp add: sample_eval)

lemma flap_10:
  "run flap (sample_state (37 / 5) [sample_pipe 152 False, sample_pipe 404 False, sample_pipe 656 False] 0 None) =
     sample_state (37 / 5) [sample_pipe 80 False, sample_pipe 332 False, sample_pipe 584 False] 0 None"
  by (simp add: sample_eval)

lemma flap_11:
  "run flap (sample_state (37 / 5) [sample_pipe 80 False, sample_pipe 332 False, sample_pipe 584 False] 0 None) =
     sample_state (37 / 5) [sample_pipe 8 True, sample_pipe 260 False, sample_pipe 512 False, sample_pipe 764 False] 1 (Some [49])"
  by (simp add: sample_eval)

lemma flap_12:
  "run flap (sample_state (37 / 5) [sample_pipe 8 True, sample_pipe 260 False, sample_pipe 512 False, sample_pipe 764 False] 1 (Some [49])) =
     sample_state (37 / 5) [sample_pipe 188 False, sample_pipe 440 False, sample_pipe 692 False] 1 (Some [49])"
  by (simp add: sample_eval)

lemma sample_run_Suc: "run (sample_run (Suc k)) g = run flap (run (sample_run k) g)"
proof -
  have "sample_run (Suc k) = sample_run k @ flap"
    by (simp add: sample_run_def replicate_append_same [symmetric])
  then show ?thesis
    by (simp only: run_append)
qed

text \<open>The state of the sample run after each of its first twelve rounds.\<close>

lemma sample_run_0:
  "run (sample_run 0) (initial None) = sample_state (0) [sample_pipe 800 False] 0 None"
  by (simp add: sample_run_def sample_eval)

lemma sample_run_1:
  "run (sample_run 1) (initial None) =
     sample_state (37 / 5) [sample_pipe 728 False] 0 None"
proof -
  have "run (sample_run 1) (initial None) = run flap (run (sample_run 0) (initial None))"
    using sample_run_Suc [of 0 "initial None"] by simp
  then show ?thesis
    by (simp only: sample_run_0 flap_1)
qed

lemma sample_run_2:
  "run (sample_run 2) (initial None) =
     sample_state (37 / 5) [sample_pipe 656 False] 0 None"
proof -
  have "run (sample_run 2) (initial None) = run flap (run (sample_run 1) (initial None))"
    using sample_run_Suc [of 1 "initial None"] by (simp add: numeral_2_eq_2)
  then show ?thesis
    by (simp only: sample_run_1 flap_2)
qed

lemma sample_run_3:
  "run (sample_run 3) (initial None) =
     sample_state (37 / 5) [sample_pipe 584 False] 0 None"
proof -
  have "run (sample_run 3) (initial None) = run flap (run (sample_run 2) (initial None))"
    using sample_run_Suc [of 2 "initial None"] by simp
  then show ?thesis
    by (simp only: sample_run_2 flap_3)
qed

lemma sample_run_4:
  "run (sample_run 4) (initial None) =
     sample_state (37 / 5) [sample_pipe 512 False, sample_pipe 764 False] 0 None"
proof -
  have "run (sample_run 4) (initial None) = run flap (run (sample_run 3) (initial None))"
    using sample_run_Suc [of 3 "initial None"] by simp
  then show ?thesis
    by (simp only: sample_run_3 flap_4)
qed

lemma sample_run_5:
  "run (sample_run 5) (initial None) =
     sample_state (37 / 5) [sample_pipe 440 False, sample_pipe 692 False] 0 None"
proof -
  have "run (sample_run 5) (initial None) = run flap (run (sample_run 4) (initial None))"
    using sample_run_Suc [of 4 "initial None"] by simp
  then show ?thesis
    by (simp only: sample_run_4 flap_5)
qed

lemma sample_run_6:
  "run (sample_run 6) (initial None) =
     sample_state (37 / 5) [sample_pipe 368 False, sample_pipe 620 False] 0 None"
proof -
  have "run (sample_run 6) (initial None) = run flap (run (sample_run 5) (initial None))"
    using sample_run_Suc [of 5 "initial None"] by simp
  then show ?thesis
    by (simp only: sample_run_5 flap_6)
qed

lemma sample_run_7:
  "run (sample_run 7) (initial None) =
     sample_state (37 / 5) [sample_pipe 296 False, sample_pipe 548 False, sample_pipe 800 False] 0 None"
proof -
  have "run (sample_run 7) (initial None) = run flap (run (sample_run 6) (initial None))"
    using sample_run_Suc [of 6 "initial None"] by simp
  then show ?thesis
    by (simp only: sample_run_6 flap_7)
qed

lemma sample_run_8:
  "run (sample_run 8) (initial None) =
     sample_state (37 / 5) [sample_pipe 224 False, sample_pipe 476 False, sample_pipe 728 False] 0 None"
proof -
  have "run (sample_run 8) (initial None) = run flap (run (sample_run 7) (initial None))"
    using sample_run_Suc [of 7 "initial None"] by simp
  then show ?thesis
    by (simp only: sample_run_7 flap_8)
qed

lemma sample_run_9:
  "run (sample_run 9) (initial None) =
     sample_state (37 / 5) [sample_pipe 152 False, sample_pipe 404 False, sample_pipe 656 False] 0 None"
proof -
  have "run (sample_run 9) (initial None) = run flap (run (sample_run 8) (initial None))"
    using sample_run_Suc [of 8 "initial None"] by simp
  then show ?thesis
    by (simp only: sample_run_8 flap_9)
qed

lemma sample_run_10:
  "run (sample_run 10) (initial None) =
     sample_state (37 / 5) [sample_pipe 80 False, sample_pipe 332 False, sample_pipe 584 False] 0 None"
proof -
  have "run (sample_run 10) (initial None) = run flap (run (sample_run 9) (initial None))"
    using sample_run_Suc [of 9 "initial None"] by simp
  then show ?thesis
    by (simp only: sample_run_9 flap_10)
qed

lemma sample_run_11:
  "run (sample_run 11) (initial None) =
     sample_state (37 / 5) [sample_pipe 8 True, sample_pipe 260 False, sample_pipe 512 False, sample_pipe 764 False] 1 (Some [49])"
proof -
  have "run (sample_run 11) (initial None) = run flap (run (sample_run 10) (initial None))"
    using sample_run_Suc [of 10 "initial None"] by simp
  then show ?thesis
    by (simp only: sample_run_10 flap_11)
qed

lemma sample_run_12:
  "run (sample_run 12) (initial None) =
     sample_state (37 / 5) [sample_pipe 188 False, sample_pipe 440 False, sample_pipe 692 False] 1 (Some [49])"
proof -
  have "run (sample_run 12) (initial None) = run flap (run (sample_run 11) (initial None))"
    using sample_run_Suc [of 11 "initial None"] by simp
  then show ?thesis
    by (simp only: sample_run_11 flap_12)
qed

text \<open>
  The first pipe starts at 800 and loses 2 in every tick. Tick 381 brings it to 38, and
  \<open>100 > 38 + 60\<close> marks it passed. This is the state one tick before, 20 ticks into
  the eleventh round.
\<close>

lemma sample_before_pass:
  "run (sample_run 10 @ Jump (1 / 2) # replicate 20 (Tick (1 / 2))) (initial None) =
     \<lparr>bird = \<lparr>bird_x = 100, bird_y = 236, velocity = 1\<rparr>,
      pipes = [sample_pipe 40 False, sample_pipe 292 False, sample_pipe 544 False,
               sample_pipe 796 False],
      gameStarted = True, gameOver = False, score = 0, highScore = 0,
      gameWidth = 800, gameHeight = 600, storage = None\<rparr>"
proof -
  have "run (sample_run 10 @ Jump (1 / 2) # replicate 20 (Tick (1 / 2))) (initial None) =
      run (Jump (1 / 2) # replicate 20 (Tick (1 / 2)))
        (sample_state (37 / 5) [sample_pipe 80 False, sample_pipe 332 False, sample_pipe 584 False] 0 None)"
    by (simp only: run_append sample_run_10)
  then show ?thesis
    by (simp add: sample_eval)
qed

text \<open>
  Without a jump the bird falls from 300 with velocity 0: tick 38 would bring it to
  \<open>2906 / 5\<close>, beyond \<open>600 - 30\<close>, so it stays at \<open>2832 / 5\<close> and the game is over.
\<close>

lemma sample_fall:
  "run (Jump (1 / 2) # replicate 38 (Tick (1 / 2))) (initial None) =
     \<lparr>bird = \<lparr>bird_x = 100, bird_y = 2832 / 5, velocity = 74 / 5\<rparr>,
      pipes = [sample_pipe 724 False],
      gameStarted = True, gameOver = True, score = 0, highScore = 0,
      gameWidth = 800, gameHeight = 600, storage = None\<rparr>"
  by (simp add: sample_eval)

section \<open>Physics\<close>



section \<open>Collision\<close>

lemma gameLoop_keeps [simp]:
  "score (gameLoop r g) = score g" "highScore (gameLoop r g) = highScore g"
  "storage (gameLoop r g) = storage g" "gameStarted (gameLoop r g) = gameStarted g"
  "gameHeight (gameLoop r g) = gameHeight g" "gameWidth (gameLoop r g) = gameWidth g"
  by (simp_all add: gameLoop_def split: prod.splits)

text \<open>
  Two half-open spans of positive width share a point exactly when each begins before the
  other ends, which is what the source tests.
\<close>

lemma spans_overlap_iff:
  assumes "0 < w" and "0 < v"
  shows "spans_overlap a w c v \<longleftrightarrow> a + w > c \<and> a < c + v"
proof
  assume "spans_overlap a w c v"
  then obtain z where "a \<le> z" "z < a + w" "c \<le> z" "z < c + v"
    unfolding spans_overlap_def by blast
  then show "a + w > c \<and> a < c + v" by simp
next
  assume h: "a + w > c \<and> a < c + v"
  have "a \<le> max a c \<and> max a c < a + w \<and> c \<le> max a c \<and> max a c < c + v"
    using assms h by (simp add: max_def)
  then show "spans_overlap a w c v"
    unfolding spans_overlap_def by blast
qed

lemma collides_spec: "collides b gh pipe \<longleftrightarrow> spec_collision b gh pipe"
  unfolding collides_def spec_collision_def
  by (simp add: spans_overlap_iff constants)

lemma collisionLoop_collided:
  "fst (collisionLoop b gh ps) \<longleftrightarrow> (\<exists>pipe \<in> set ps. collides b gh pipe)"
  by (induction ps) (auto split: prod.splits)

lemma checkCollisions_hit:
  assumes "phase_of g = Running"
    and "\<exists>pipe \<in> set (pipes g). collides (bird g) (gameHeight g) pipe"
  shows "checkCollisions g = g\<lparr>gameOver := True\<rparr>"
proof -
  obtain c ps n where loop: "collisionLoop (bird g) (gameHeight g) (pipes g) = (c, ps, n)"
    by (cases "collisionLoop (bird g) (gameHeight g) (pipes g)")
  from assms(2) have "fst (collisionLoop (bird g) (gameHeight g) (pipes g))"
    by (simp add: collisionLoop_collided)
  with loop have c by simp
  with assms(1) loop show ?thesis
    by (simp add: checkCollisions_def running_flags)
qed

lemma checkCollisions_miss:
  assumes "phase_of g = Running"
    and "\<not> (\<exists>pipe \<in> set (pipes g). collides (bird g) (gameHeight g) pipe)"
  shows "phase_of (checkCollisions g) = Running"
proof -
  obtain c ps n where loop: "collisionLoop (bird g) (gameHeight g) (pipes g) = (c, ps, n)"
    by (cases "collisionLoop (bird g) (gameHeight g) (pipes g)")
  from assms(2) have "\<not> fst (collisionLoop (bird g) (gameHeight g) (pipes g))"
    by (simp add: collisionLoop_collided)
  with loop have "\<not> c" by simp
  with assms(1) loop show ?thesis
    by (simp add: checkCollisions_def running_flags Let_def)
qed

text \<open>
  C2. In a tick of a running game, after the bird and the pipes have moved, the loop's
  flag \<open>collided\<close> is set exactly when some pipe of the sequence satisfies the spec's
  collision predicate. When one does, the game is over after the tick and the tick does
  no scoring: the pipes are those the interval callback left, none newly marked passed,
  and score, high score and stored value are unchanged. The game is over after the tick
  exactly when the bird left the playfield or some pipe satisfies the predicate.
\<close>

theorem C2_collision:
  "phase_of g = Running \<Longrightarrow>
   (fst (collisionLoop (bird (gameLoop r g)) (gameHeight g) (pipes (gameLoop r g))) \<longleftrightarrow>
      (\<exists>pipe \<in> set (pipes (gameLoop r g)).
          spec_collision (bird (gameLoop r g)) (gameHeight g) pipe)) \<and>
   ((\<exists>pipe \<in> set (pipes (gameLoop r g)).
          spec_collision (bird (gameLoop r g)) (gameHeight g) pipe) \<longrightarrow>
      phase_of (tick r g) = Over \<and>
      pipes (tick r g) = pipes (gameLoop r g) \<and>
      score (tick r g) = score g \<and>
      highScore (tick r g) = highScore g \<and>
      storage (tick r g) = storage g) \<and>
   (phase_of (tick r g) = Over \<longleftrightarrow>
      gameOver (gameLoop r g) \<or>
      (\<exists>pipe \<in> set (pipes (gameLoop r g)).
          spec_collision (bird (gameLoop r g)) (gameHeight g) pipe))"
proof -
  assume running: "phase_of g = Running"
  let ?g' = "gameLoop r g"
  let ?hit = "\<exists>pipe \<in> set (pipes ?g'). spec_collision (bird ?g') (gameHeight g) pipe"
  have hit_code: "?hit \<longleftrightarrow> (\<exists>pipe \<in> set (pipes ?g'). collides (bird ?g') (gameHeight ?g') pipe)"
    by (simp add: collides_spec)
  have tick: "tick r g = checkCollisions ?g'"
    using running by (simp add: tick_def running_flags)
  have started: "gameStarted ?g'"
    using running by (simp add: running_flags)
  have flag: "fst (collisionLoop (bird ?g') (gameHeight g) (pipes ?g')) \<longleftrightarrow> ?hit"
    by (simp add: collisionLoop_collided collides_spec)
  have frozen: "phase_of (tick r g) = Over \<and> pipes (tick r g) = pipes ?g' \<and>
      score (tick r g) = score g \<and> highScore (tick r g) = highScore g \<and>
      storage (tick r g) = storage g" if ?hit
  proof (cases "gameOver ?g'")
    case True
    then show ?thesis
      using started by (simp add: tick checkCollisions_over over_flags)
  next
    case False
    with started have "phase_of ?g' = Running" by (simp add: running_flags)
    from checkCollisions_hit [OF this] that hit_code
    have "checkCollisions ?g' = ?g'\<lparr>gameOver := True\<rparr>" by blast
    then show ?thesis
      using started by (simp add: tick over_flags)
  qed
  have over: "phase_of (tick r g) = Over \<longleftrightarrow> gameOver ?g' \<or> ?hit"
  proof (cases "gameOver ?g'")
    case True
    then show ?thesis
      using started by (simp add: tick checkCollisions_over over_flags)
  next
    case False
    with started have r': "phase_of ?g' = Running" by (simp add: running_flags)
    show ?thesis
    proof (cases ?hit)
      case True
      with frozen False show ?thesis by blast
    next
      case no: False
      with hit_code
      have "\<not> (\<exists>pipe \<in> set (pipes ?g'). collides (bird ?g') (gameHeight ?g') pipe)"
        by blast
      from checkCollisions_miss [OF r' this] have "phase_of (tick r g) = Running"
        by (simp add: tick)
      with no False show ?thesis by simp
    qed
  qed
  from flag frozen over show ?thesis by blast
qed

text \<open>
  A playfield 141 wide and a draw of \<open>9 / 10\<close>: the first pipe starts at 141 with its top
  part 320 high. The first tick moves it to 139, under the bird's right edge at 140, and
  the bird at height 300 is above the gap.
\<close>

theorem C2_collision_witness:
  "phase_of (step (Jump (9 / 10)) (mount 141 600 (initial None))) = Running \<and>
   phase_of (tick (9 / 10) (step (Jump (9 / 10)) (mount 141 600 (initial None)))) = Over \<and>
   pipes (tick (9 / 10) (step (Jump (9 / 10)) (mount 141 600 (initial None)))) =
     [\<lparr>pipe_x = 139, topHeight = 320, bottomHeight = 80, passed = False\<rparr>] \<and>
   score (tick (9 / 10) (step (Jump (9 / 10)) (mount 141 600 (initial None)))) = 0"
proof -
  define g where "g = step (Jump (9 / 10)) (mount 141 600 (initial None))"
  have g: "g =
      \<lparr>bird = \<lparr>bird_x = 100, bird_y = 300, velocity = 0\<rparr>,
       pipes = [\<lparr>pipe_x = 141, topHeight = 320, bottomHeight = 80, passed = False\<rparr>],
       gameStarted = True, gameOver = False, score = 0, highScore = 0,
       gameWidth = 141, gameHeight = 600, storage = None\<rparr>"
    by (simp add: g_def initial_def mount_def loadHighScore_None jump_def checkCollisions_def
        collides_def constants Let_def)
  have running: "phase_of g = Running"
    by (simp add: g phase_of_def)
  have loop: "gameLoop (9 / 10) g =
      \<lparr>bird = \<lparr>bird_x = 100, bird_y = 300, velocity = 2 / 5\<rparr>,
       pipes = [\<lparr>pipe_x = 139, topHeight = 320, bottomHeight = 80, passed = False\<rparr>],
       gameStarted = True, gameOver = False, score = 0, highScore = 0,
       gameWidth = 141, gameHeight = 600, storage = None\<rparr>"
    by (simp add: g gameLoop_def birdUpdater_def pipesUpdater_def constants Let_def)
  have "\<exists>pipe \<in> set (pipes (gameLoop (9 / 10) g)).
      collides (bird (gameLoop (9 / 10) g)) (gameHeight g) pipe"
    by (simp add: loop) (simp add: g collides_def constants)
  then have hit: "\<exists>pipe \<in> set (pipes (gameLoop (9 / 10) g)).
      spec_collision (bird (gameLoop (9 / 10) g)) (gameHeight g) pipe"
    by (simp only: collides_spec)
  from C2_collision [OF running, of "9 / 10"] hit
  have "phase_of (tick (9 / 10) g) = Over \<and>
      pipes (tick (9 / 10) g) = pipes (gameLoop (9 / 10) g) \<and>
      score (tick (9 / 10) g) = score g"
    by blast
  with running have "phase_of g = Running \<and>
      phase_of (tick (9 / 10) g) = Over \<and>
      pipes (tick (9 / 10) g) =
        [\<lparr>pipe_x = 139, topHeight = 320, bottomHeight = 80, passed = False\<rparr>] \<and>
      score (tick (9 / 10) g) = 0"
    by (simp add: loop) (simp add: g)
  then show ?thesis
    unfolding g_def .
qed

section \<open>The first jump\<close>





section \<open>Score and passed pipes\<close>

lemma collisionLoop_count:
  "passedCount (fst (snd (collisionLoop b gh ps))) =
     passedCount ps + snd (snd (collisionLoop b gh ps))"
  by (induction ps) (auto simp: passedCount_def split: prod.splits)

lemma checkCollisions_balance:
  "score (checkCollisions g) - passedCount (pipes (checkCollisions g)) =
     score g - passedCount (pipes g)"
proof -
  obtain c ps n where loop: "collisionLoop (bird g) (gameHeight g) (pipes g) = (c, ps, n)"
    by (cases "collisionLoop (bird g) (gameHeight g) (pipes g)")
  with collisionLoop_count [of "bird g" "gameHeight g" "pipes g"]
  have "passedCount ps = passedCount (pipes g) + n" by simp
  then show ?thesis
    by (simp add: checkCollisions_def loop Let_def)
qed

lemma kept_count:
  "passedCount (filter (\<lambda>pipe. pipe_x pipe > - PIPE_WIDTH)
      (map (\<lambda>pipe. pipe\<lparr>pipe_x := pipe_x pipe - PIPE_SPEED\<rparr>) prev)) =
   passedCount prev - retiring prev"
  by (induction prev) (auto simp: passedCount_def retiring_def)

lemma pipesUpdater_count:
  "passedCount (pipesUpdater r gw gh prev) = passedCount prev - retiring prev"
proof -
  have app: "passedCount (ps @ [q]) = passedCount ps" if "\<not> passed q" for ps q
    using that by (simp add: passedCount_def)
  show ?thesis
    unfolding pipesUpdater_def Let_def
    by (simp add: app kept_count del: filter_map)
qed

lemma tick_balance:
  assumes "phase_of g = Running"
  shows "score (tick r g) - passedCount (pipes (tick r g)) =
           score g - passedCount (pipes g) + retiring (pipes g)"
proof -
  from assms have "tick r g = checkCollisions (gameLoop r g)"
    by (simp add: tick_def running_flags)
  moreover have "pipes (gameLoop r g) = pipesUpdater r (gameWidth g) (gameHeight g) (pipes g)"
    by (simp add: gameLoop_def split: prod.splits)
  ultimately show ?thesis
    using checkCollisions_balance [of "gameLoop r g"]
    by (simp add: pipesUpdater_count)
qed

lemma retiring_nonneg: "0 \<le> retiring ps"
  by (simp add: retiring_def)

text \<open>While the game has not started, there are no pipes.\<close>

lemma step_started_pipes:
  assumes "\<not> gameStarted g \<longrightarrow> pipes g = []"
  shows "\<not> gameStarted (step e g) \<longrightarrow> pipes (step e g) = []"
proof (cases e)
  case (Jump r)
  then show ?thesis using assms by (simp add: jump_def Let_def)
next
  case (Tick r)
  then show ?thesis using assms
    by (cases "\<not> gameStarted g \<or> gameOver g")
      (simp_all add: tick_def gameLoop_def split: prod.splits)
next
  case Reset
  then show ?thesis by (simp add: resetGame_def checkCollisions_idle)
next
  case (Resize w h)
  then show ?thesis using assms
    by (simp add: handleResize_def checkCollisions_idle)
qed

lemma jump_balance:
  assumes "\<not> gameStarted g \<longrightarrow> pipes g = []"
  shows "score (step (Jump r) g) - passedCount (pipes (step (Jump r) g)) =
           score g - passedCount (pipes g)"
proof -
  have "score (jump r g) - passedCount (pipes (jump r g)) = score g - passedCount (pipes g)"
    using assms by (simp add: jump_def Let_def passedCount_def)
  with checkCollisions_balance [of "jump r g"] show ?thesis by simp
qed

lemma resize_balance:
  "score (step (Resize w h) g) - passedCount (pipes (step (Resize w h) g)) =
           score g - passedCount (pipes g)"
  using checkCollisions_balance [of "handleResize w h g"] by (simp add: handleResize_def)

lemma reset_fresh:
  "score (step Reset g) = 0" "pipes (step Reset g) = []"
  by (simp_all add: resetGame_def checkCollisions_idle)

lemma retired_balance:
  assumes "score g = passedCount (pipes g) + n" and "0 \<le> n"
    and "\<not> gameStarted g \<longrightarrow> pipes g = []"
  shows "score (run es g) = passedCount (pipes (run es g)) + retired n es g \<and>
         0 \<le> retired n es g"
  using assms
proof (induction es arbitrary: g n)
  case Nil
  then show ?case by simp
next
  case (Cons e es)
  have idle: "\<not> gameStarted (step e g) \<longrightarrow> pipes (step e g) = []"
    using Cons.prems(3) by (rule step_started_pipes)
  show ?case
  proof (cases e)
    case (Jump r)
    from jump_balance [OF Cons.prems(3), of r] Cons.prems(1)
    have "score (step e g) = passedCount (pipes (step e g)) + n"
      by (simp add: Jump)
    from Cons.IH [OF this Cons.prems(2) idle] show ?thesis by (simp add: Jump)
  next
    case (Tick r)
    show ?thesis
    proof (cases "phase_of g = Running")
      case True
      from tick_balance [OF True, of r] Cons.prems(1)
      have "score (step e g) = passedCount (pipes (step e g)) + (n + retiring (pipes g))"
        by (simp add: Tick)
      moreover have "0 \<le> n + retiring (pipes g)"
        using Cons.prems(2) retiring_nonneg [of "pipes g"] by simp
      ultimately show ?thesis
        using Cons.IH [of "step e g" "n + retiring (pipes g)"] idle True by (simp add: Tick)
    next
      case False
      then have "step e g = g"
        by (auto simp: Tick tick_def phase_of_def split: if_splits)
      with Cons.IH [of g n] Cons.prems False show ?thesis by (simp add: Tick)
    qed
  next
    case Reset
    have "score (step e g) = passedCount (pipes (step e g)) + 0"
      by (simp add: Reset reset_fresh passedCount_def del: step.simps)
    from Cons.IH [OF this _ idle] show ?thesis by (simp add: Reset)
  next
    case (Resize w h)
    from resize_balance [of w h g] Cons.prems(1)
    have "score (step e g) = passedCount (pipes (step e g)) + n"
      by (simp add: Resize)
    from Cons.IH [OF this Cons.prems(2) idle] show ?thesis by (simp add: Resize)
  qed
qed

text \<open>
  C4 as stated fails once a passed pipe has left the screen. In the sample run the first
  pipe is passed at tick 381 and dropped at tick 430: after twelve rounds (432 ticks) the
  score is 1 and none of the three pipes of the sequence is marked passed.
\<close>

theorem C4_counterexample:
  "reachable (run (sample_run 12) (initial None)) \<and>
   pipes (run (sample_run 12) (initial None)) =
     [sample_pipe 188 False, sample_pipe 440 False, sample_pipe 692 False] \<and>
   score (run (sample_run 12) (initial None)) = 1 \<and>
   length (filter passed (pipes (run (sample_run 12) (initial None)))) = 0"
proof -
  have "reachable (run (sample_run 12) (initial None))"
    by (rule reachable_run) (rule reachable_initial)
  moreover have "pipes (run (sample_run 12) (initial None)) =
     [sample_pipe 188 False, sample_pipe 440 False, sample_pipe 692 False]"
    by (simp only: sample_run_12) (simp add: sample_state_def)
  moreover have "score (run (sample_run 12) (initial None)) = 1"
    by (simp only: sample_run_12) (simp add: sample_state_def)
  moreover have "length (filter passed (pipes (run (sample_run 12) (initial None)))) = 0"
    by (simp only: sample_run_12) (simp add: sample_state_def sample_pipe_def)
  ultimately show ?thesis
    by (intro conjI)
qed

text \<open>
  C4, amended. Along every sequence of events from a state without pipes and with score
  0 (the initial state, the state after mounting, the state after a reset), the score
  equals the number of pipes of the current sequence that are marked passed plus the
  number of passed pipes that the ticks of the current run have dropped at the left edge.
  So the score is never less than the number of passed pipes in the sequence.
\<close>

theorem C4_score_count:
  "pipes g = [] \<Longrightarrow> score g = 0 \<Longrightarrow>
   score (run es g) = passedCount (pipes (run es g)) + retired 0 es g \<and>
   0 \<le> retired 0 es g \<and>
   passedCount (pipes (run es g)) \<le> score (run es g)"
proof -
  assume "pipes g = []" and "score g = 0"
  then have "score g = passedCount (pipes g) + 0" and "\<not> gameStarted g \<longrightarrow> pipes g = []"
    by (simp_all add: passedCount_def)
  from retired_balance [OF this(1) _ this(2), of es] show ?thesis by simp
qed

text \<open>
  The sample run after eleven rounds, with the passed pipe still in the sequence, and
  after twelve, when it has been dropped.
\<close>

theorem C4_score_count_witness:
  "pipes (initial None) = [] \<and> score (initial None) = 0 \<and>
   score (run (sample_run 11) (initial None)) = 1 \<and>
   passedCount (pipes (run (sample_run 11) (initial None))) = 1 \<and>
   retired 0 (sample_run 11) (initial None) = 0 \<and>
   score (run (sample_run 12) (initial None)) = 1 \<and>
   passedCount (pipes (run (sample_run 12) (initial None))) = 0 \<and>
   retired 0 (sample_run 12) (initial None) = 1"
proof -
  have fresh: "pipes (initial None) = []" "score (initial None) = 0"
    by (simp_all add: initial_def)
  have s11: "score (run (sample_run 11) (initial None)) = 1"
    and p11: "passedCount (pipes (run (sample_run 11) (initial None))) = 1"
    by (simp_all only: sample_run_11)
      (simp_all add: sample_state_def sample_pipe_def passedCount_def)
  have s12: "score (run (sample_run 12) (initial None)) = 1"
    and p12: "passedCount (pipes (run (sample_run 12) (initial None))) = 0"
    by (simp_all only: sample_run_12)
      (simp_all add: sample_state_def sample_pipe_def passedCount_def)
  from C4_score_count [OF fresh, of "sample_run 11"] s11 p11
  have r11: "retired 0 (sample_run 11) (initial None) = 0" by simp
  from C4_score_count [OF fresh, of "sample_run 12"] s12 p12
  have r12: "retired 0 (sample_run 12) (initial None) = 1" by simp
  from fresh s11 p11 r11 s12 p12 r12 show ?thesis
    by (intro conjI)
qed

section \<open>The order of the pipes\<close>

lemma collisionLoop_xs:
  "map pipe_x (fst (snd (collisionLoop b gh ps))) = map pipe_x ps"
  by (induction ps) (auto split: prod.splits)

lemma checkCollisions_xs: "map pipe_x (pipes (checkCollisions g)) = map pipe_x (pipes g)"
proof -
  obtain c ps n where loop: "collisionLoop (bird g) (gameHeight g) (pipes g) = (c, ps, n)"
    by (cases "collisionLoop (bird g) (gameHeight g) (pipes g)")
  with collisionLoop_xs [of "bird g" "gameHeight g" "pipes g"]
  have "map pipe_x ps = map pipe_x (pipes g)" by simp
  then show ?thesis
    by (simp add: checkCollisions_def loop Let_def)
qed

lemma member_nonempty: "x \<in> set xs \<Longrightarrow> xs \<noteq> []"
  by (cases xs) simp_all

lemma ascending_last:
  assumes "sorted_wrt (<) (map pipe_x ps)" and "pipe \<in> set ps"
  shows "pipe_x pipe \<le> pipe_x (last ps)"
  using assms
proof (induction ps)
  case Nil
  then show ?case by simp
next
  case (Cons q qs)
  show ?case
  proof (cases "qs = []")
    case True
    with Cons.prems show ?thesis by simp
  next
    case False
    then have "last qs \<in> set qs" by simp
    with Cons.prems(1) have "pipe_x q < pipe_x (last qs)" by auto
    moreover have "pipe \<in> set qs \<Longrightarrow> pipe_x pipe \<le> pipe_x (last qs)"
      using Cons.IH Cons.prems(1) by simp
    ultimately show ?thesis
      using Cons.prems(2) False by auto
  qed
qed

lemma pipesUpdater_split:
  "\<exists>new. pipesUpdater r gw gh prev =
           map (\<lambda>pipe. pipe\<lparr>pipe_x := pipe_x pipe - PIPE_SPEED\<rparr>)
             (filter (\<lambda>pipe. \<not> pipe_x pipe - PIPE_SPEED \<le> - PIPE_WIDTH) prev) @ new \<and>
         length new \<le> 1"
proof -
  let ?shift = "\<lambda>pipe. pipe\<lparr>pipe_x := pipe_x pipe - PIPE_SPEED\<rparr>"
  let ?kept = "filter (\<lambda>pipe. pipe_x pipe > - PIPE_WIDTH) (map ?shift prev)"
  have kept: "?kept = map ?shift (filter (\<lambda>pipe. \<not> pipe_x pipe - PIPE_SPEED \<le> - PIPE_WIDTH) prev)"
    by (simp add: filter_map comp_def not_le)
  show ?thesis
  proof (cases "?kept = [] \<or> pipe_x (last ?kept) < gw - 250")
    case True
    let ?t = "r * (gh - PIPE_GAP - 100) + 50"
    let ?p = "\<lparr>pipe_x = gw, topHeight = ?t, bottomHeight = gh - ?t - PIPE_GAP, passed = False\<rparr>"
    from True have "pipesUpdater r gw gh prev = ?kept @ [?p]"
      unfolding pipesUpdater_def Let_def by (simp only: if_True)
    with kept have "pipesUpdater r gw gh prev =
       map ?shift (filter (\<lambda>pipe. \<not> pipe_x pipe - PIPE_SPEED \<le> - PIPE_WIDTH) prev) @ [?p]"
      by simp
    moreover have "length [?p] \<le> 1" by simp
    ultimately show ?thesis by blast
  next
    case False
    then have "pipesUpdater r gw gh prev = ?kept @ []"
      unfolding pipesUpdater_def Let_def by (simp only: if_False append_Nil2)
    with kept have "pipesUpdater r gw gh prev =
       map ?shift (filter (\<lambda>pipe. \<not> pipe_x pipe - PIPE_SPEED \<le> - PIPE_WIDTH) prev) @ []"
      by simp
    moreover have "length ([] :: pipe_state list) \<le> 1" by simp
    ultimately show ?thesis by blast
  qed
qed

lemma pipesUpdater_ascending:
  assumes "sorted_wrt (<) (map pipe_x prev)"
  shows "sorted_wrt (<) (map pipe_x (pipesUpdater r gw gh prev))"
proof -
  let ?shift = "\<lambda>pipe. pipe\<lparr>pipe_x := pipe_x pipe - PIPE_SPEED\<rparr>"
  let ?kept = "filter (\<lambda>pipe. pipe_x pipe > - PIPE_WIDTH) (map ?shift prev)"
  from assms have "sorted_wrt (\<lambda>p q. pipe_x p < pipe_x q) prev"
    by (simp add: sorted_wrt_map)
  then have "sorted_wrt (\<lambda>p q. pipe_x p < pipe_x q) (map ?shift prev)"
    by (simp add: sorted_wrt_map)
  then have "sorted_wrt (\<lambda>p q. pipe_x p < pipe_x q) ?kept"
    by (rule sorted_wrt_filter)
  then have kept: "sorted_wrt (<) (map pipe_x ?kept)"
    by (simp add: sorted_wrt_map)
  show ?thesis
  proof (cases "?kept = [] \<or> pipe_x (last ?kept) < gw - 250")
    case True
    let ?t = "r * (gh - PIPE_GAP - 100) + 50"
    let ?p = "\<lparr>pipe_x = gw, topHeight = ?t, bottomHeight = gh - ?t - PIPE_GAP, passed = False\<rparr>"
    from True have upd: "pipesUpdater r gw gh prev = ?kept @ [?p]"
      unfolding pipesUpdater_def Let_def by (simp only: if_True)
    have "pipe_x pipe < gw" if "pipe \<in> set ?kept" for pipe
    proof -
      from that have "?kept \<noteq> []" by (rule member_nonempty)
      with True have "pipe_x (last ?kept) < gw - 250" by blast
      moreover from ascending_last [OF kept that] have "pipe_x pipe \<le> pipe_x (last ?kept)" .
      ultimately show ?thesis by simp
    qed
    with kept have "sorted_wrt (<) (map pipe_x (?kept @ [?p]))"
      by (simp add: sorted_wrt_append)
    with upd show ?thesis by simp
  next
    case False
    then have "pipesUpdater r gw gh prev = ?kept"
      unfolding pipesUpdater_def Let_def by (simp only: if_False)
    with kept show ?thesis by simp
  qed
qed

lemma step_ascending:
  assumes "sorted_wrt (<) (map pipe_x (pipes g))"
  shows "sorted_wrt (<) (map pipe_x (pipes (step e g)))"
proof (cases e)
  case (Jump r)
  have "sorted_wrt (<) (map pipe_x (pipes (jump r g)))"
    using assms by (simp add: jump_def Let_def)
  with Jump show ?thesis by (simp add: checkCollisions_xs)
next
  case (Tick r)
  show ?thesis
  proof (cases "\<not> gameStarted g \<or> gameOver g")
    case True
    with Tick assms show ?thesis by (simp add: tick_def)
  next
    case False
    have "pipes (gameLoop r g) = pipesUpdater r (gameWidth g) (gameHeight g) (pipes g)"
      by (simp add: gameLoop_def split: prod.splits)
    with pipesUpdater_ascending [OF assms]
    have "sorted_wrt (<) (map pipe_x (pipes (gameLoop r g)))" by simp
    with Tick False show ?thesis by (simp add: tick_def checkCollisions_xs)
  qed
next
  case Reset
  then show ?thesis by (simp add: checkCollisions_xs resetGame_def)
next
  case (Resize w h)
  with assms show ?thesis by (simp add: checkCollisions_xs handleResize_def)
qed

lemma reachable_ascending: "reachable g \<Longrightarrow> sorted_wrt (<) (map pipe_x (pipes g))"
proof (induction rule: reachable.induct)
  case (reachable_step g e)
  from reachable_step.IH show ?case by (rule step_ascending)
qed (simp_all add: initial_def mount_def)

text \<open>
  C5 as stated orders the sequence by descending \<open>x\<close>. New pipes are appended at the end
  and at the right edge: after four rounds of the sample run (144 ticks) the sequence
  holds the first pipe at 512 and behind it the second, spawned at tick 126, at 764.
\<close>

theorem C5_counterexample:
  "reachable (run (sample_run 4) (initial None)) \<and>
   map pipe_x (pipes (run (sample_run 4) (initial None))) = [512, 764] \<and>
   \<not> sorted_wrt (\<lambda>a b. a \<ge> b) (map pipe_x (pipes (run (sample_run 4) (initial None))))"
proof -
  have "reachable (run (sample_run 4) (initial None))"
    by (rule reachable_run) (rule reachable_initial)
  moreover have xs: "map pipe_x (pipes (run (sample_run 4) (initial None))) = [512, 764]"
    by (simp only: sample_run_4) (simp add: sample_state_def sample_pipe_def)
  moreover have "\<not> sorted_wrt (\<lambda>a b. a \<ge> b)
      (map pipe_x (pipes (run (sample_run 4) (initial None))))"
    by (simp only: xs) simp
  ultimately show ?thesis
    by (intro conjI)
qed

text \<open>
  C5, amended. In every reachable state the sequence is ordered by strictly ascending
  \<open>x\<close>: the oldest pipe, furthest to the left, comes first, and insertion order is
  spatial order. The interval callback keeps, shifted by \<open>PIPE_SPEED\<close> and in their order,
  exactly the pipes whose shifted \<open>x\<close> is greater than \<open>- PIPE_WIDTH\<close>, and appends at most
  one new pipe.
\<close>

theorem C5_pipe_order:
  "(reachable g \<longrightarrow> sorted_wrt (<) (map pipe_x (pipes g))) \<and>
   (\<exists>new. pipesUpdater r gw gh prev =
           map (\<lambda>pipe. pipe\<lparr>pipe_x := pipe_x pipe - PIPE_SPEED\<rparr>)
             (filter (\<lambda>pipe. \<not> pipe_x pipe - PIPE_SPEED \<le> - PIPE_WIDTH) prev) @ new \<and>
         length new \<le> 1)"
  using reachable_ascending [of g] pipesUpdater_split [of r gw gh prev] by blast

text \<open>
  The sample run after four rounds; and the spec's scenario of a pipe at \<open>- 61\<close>, which
  the next pass drops, behind it a pipe that stays.
\<close>

theorem C5_pipe_order_witness:
  "reachable (run (sample_run 4) (initial None)) \<and>
   sorted_wrt (<) (map pipe_x (pipes (run (sample_run 4) (initial None)))) \<and>
   map pipe_x (pipes (run (sample_run 4) (initial None))) = [512, 764] \<and>
   pipesUpdater (1 / 2) 800 600 [sample_pipe (- 61) True, sample_pipe 600 False] =
     [sample_pipe 598 False]"
proof -
  have reach: "reachable (run (sample_run 4) (initial None))"
    by (rule reachable_run) (rule reachable_initial)
  with C5_pipe_order [of "run (sample_run 4) (initial None)"]
  have "sorted_wrt (<) (map pipe_x (pipes (run (sample_run 4) (initial None))))"
    by blast
  moreover have "map pipe_x (pipes (run (sample_run 4) (initial None))) = [512, 764]"
    by (simp only: sample_run_4) (simp add: sample_state_def sample_pipe_def)
  moreover have "pipesUpdater (1 / 2) 800 600 [sample_pipe (- 61) True, sample_pipe 600 False] =
     [sample_pipe 598 False]"
    by (simp add: pipesUpdater_def sample_pipe_def Let_def constants)
  ultimately show ?thesis
    using reach by (intro conjI)
qed

section \<open>The gap of a new pipe\<close>



section \<open>The high score\<close>

text \<open>What the collision effect and a tick can do to score, high score and stored value.\<close>

lemma checkCollisions_scores:
  "(score (checkCollisions g) = score g \<and> highScore (checkCollisions g) = highScore g \<and>
      storage (checkCollisions g) = storage g) \<or>
   (score g < score (checkCollisions g) \<and>
      (if highScore g < score (checkCollisions g)
       then highScore (checkCollisions g) = score (checkCollisions g) \<and>
            storage (checkCollisions g) = Some (toString (score (checkCollisions g)))
       else highScore (checkCollisions g) = highScore g \<and>
            storage (checkCollisions g) = storage g))"
proof -
  obtain c ps n where loop: "collisionLoop (bird g) (gameHeight g) (pipes g) = (c, ps, n)"
    by (cases "collisionLoop (bird g) (gameHeight g) (pipes g)")
  show ?thesis
    by (simp add: checkCollisions_def loop Let_def)
qed

lemma checkCollisions_highScore: "highScore g \<le> highScore (checkCollisions g)"
  using checkCollisions_scores [of g] by (auto split: if_splits)

lemma tick_scores:
  "(score (tick r g) = score g \<and> highScore (tick r g) = highScore g \<and>
      storage (tick r g) = storage g) \<or>
   (score g < score (tick r g) \<and>
      (if highScore g < score (tick r g)
       then highScore (tick r g) = score (tick r g) \<and>
            storage (tick r g) = Some (toString (score (tick r g)))
       else highScore (tick r g) = highScore g \<and> storage (tick r g) = storage g))"
proof (cases "\<not> gameStarted g \<or> gameOver g")
  case True
  then show ?thesis by (simp add: tick_def)
next
  case False
  then have "tick r g = checkCollisions (gameLoop r g)" by (simp add: tick_def)
  with checkCollisions_scores [of "gameLoop r g"] show ?thesis
    by (auto split: if_splits)
qed

lemma step_highScore: "highScore g \<le> highScore (step e g)"
proof (cases e)
  case (Jump r)
  have "highScore (jump r g) = highScore g" by (simp add: jump_def Let_def)
  with checkCollisions_highScore [of "jump r g"] Jump show ?thesis by simp
next
  case (Tick r)
  with tick_scores [of r g] show ?thesis by (auto split: if_splits)
next
  case Reset
  have "highScore (resetGame g) = highScore g" by (simp add: resetGame_def)
  with checkCollisions_highScore [of "resetGame g"] Reset show ?thesis by simp
next
  case (Resize w h)
  have "highScore (handleResize w h g) = highScore g" by (simp add: handleResize_def)
  with checkCollisions_highScore [of "handleResize w h g"] Resize show ?thesis by simp
qed

lemma run_highScore: "highScore g \<le> highScore (run es g)"
proof (induction es arbitrary: g)
  case Nil
  show ?case by simp
next
  case (Cons e es)
  have "highScore g \<le> highScore (step e g)" by (rule step_highScore)
  also have "\<dots> \<le> highScore (run es (step e g))" by (rule Cons.IH)
  finally show ?case by simp
qed

text \<open>From a high score of at least 0 the score never exceeds the high score.\<close>

lemma checkCollisions_below:
  assumes "score g \<le> highScore g"
  shows "score (checkCollisions g) \<le> highScore (checkCollisions g)"
  using checkCollisions_scores [of g] assms by (auto split: if_splits)

lemma step_below:
  assumes "score g \<le> highScore g" and "0 \<le> highScore g"
  shows "score (step e g) \<le> highScore (step e g) \<and> 0 \<le> highScore (step e g)"
proof -
  have "score (step e g) \<le> highScore (step e g)"
  proof (cases e)
    case (Jump r)
    have "score (jump r g) \<le> highScore (jump r g)"
      using assms(1) by (simp add: jump_def Let_def)
    then show ?thesis
      unfolding Jump step.simps by (rule checkCollisions_below)
  next
    case (Tick r)
    show ?thesis
    proof (cases "\<not> gameStarted g \<or> gameOver g")
      case True
      with assms(1) show ?thesis by (simp add: Tick tick_def)
    next
      case False
      have "score (gameLoop r g) \<le> highScore (gameLoop r g)"
        using assms(1) by simp
      then have "score (checkCollisions (gameLoop r g)) \<le>
          highScore (checkCollisions (gameLoop r g))"
        by (rule checkCollisions_below)
      with False show ?thesis by (simp add: Tick tick_def)
    qed
  next
    case Reset
    have "score (resetGame g) \<le> highScore (resetGame g)"
      using assms(2) by (simp add: resetGame_def)
    then show ?thesis
      unfolding Reset step.simps by (rule checkCollisions_below)
  next
    case (Resize w h)
    have "score (handleResize w h g) \<le> highScore (handleResize w h g)"
      using assms(1) by (simp add: handleResize_def)
    then show ?thesis
      unfolding Resize step.simps by (rule checkCollisions_below)
  qed
  moreover have "0 \<le> highScore (step e g)"
    using assms(2) step_highScore [of g e] by simp
  ultimately show ?thesis by (rule conjI)
qed

lemma run_below:
  assumes "score g \<le> highScore g" and "0 \<le> highScore g"
  shows "score (run es g) \<le> highScore (run es g)"
  using assms
proof (induction es arbitrary: g)
  case Nil
  then show ?case by simp
next
  case (Cons e es)
  from step_below [OF Cons.prems, of e] Cons.IH [of "step e g"] show ?case by simp
qed

lemmas tick_eval =
  tick_def gameLoop_def birdUpdater_def pipesUpdater_def checkCollisions_def collides_def
  constants Let_def sample_pipe_def

text \<open>
  C7 as stated updates the high score whenever the score after a tick exceeds it. The
  source compares only when the tick has newly passed a pipe. With \<^verbatim>\<open>-5\<close> in the store
  the loaded high score is \<open>- 5\<close>; the first tick of the game passes no pipe, its score 0
  exceeds \<open>- 5\<close>, and neither the high score nor the stored value changes.
\<close>

theorem C7_counterexample:
  "reachable (step (Jump (1 / 2)) (mount 800 600 (initial (Some (js ''-5''))))) \<and>
   highScore (step (Jump (1 / 2)) (mount 800 600 (initial (Some (js ''-5''))))) = - 5 \<and>
   score (tick (1 / 2) (step (Jump (1 / 2)) (mount 800 600 (initial (Some (js ''-5'')))))) = 0 \<and>
   highScore (tick (1 / 2) (step (Jump (1 / 2)) (mount 800 600 (initial (Some (js ''-5'')))))) =
     - 5 \<and>
   storage (tick (1 / 2) (step (Jump (1 / 2)) (mount 800 600 (initial (Some (js ''-5'')))))) =
     Some (js ''-5'')"
proof -
  define g where "g = step (Jump (1 / 2)) (mount 800 600 (initial (Some (js ''-5''))))"
  have g: "g =
      \<lparr>bird = \<lparr>bird_x = 100, bird_y = 300, velocity = 0\<rparr>,
       pipes = [sample_pipe 800 False],
       gameStarted = True, gameOver = False, score = 0, highScore = - 5,
       gameWidth = 800, gameHeight = 600, storage = Some (js ''-5'')\<rparr>"
    by (simp add: g_def initial_def mount_def loadHighScore_def parseInt_def isWhiteSpace_def
        isDigit_def digitValue_def mathInt_def js_literals jump_def checkCollisions_def
        collides_def constants Let_def sample_pipe_def)
  have "reachable g"
    unfolding g_def by (rule reachable_step) (rule reachable_mount)
  moreover have "highScore g = - 5"
    by (simp add: g)
  moreover have "score (tick (1 / 2) g) = 0" "highScore (tick (1 / 2) g) = - 5"
    "storage (tick (1 / 2) g) = Some (js ''-5'')"
    by (simp_all add: g tick_eval)
  ultimately have "reachable g \<and> highScore g = - 5 \<and> score (tick (1 / 2) g) = 0 \<and>
      highScore (tick (1 / 2) g) = - 5 \<and> storage (tick (1 / 2) g) = Some (js ''-5'')"
    by (intro conjI)
  then show ?thesis
    unfolding g_def .
qed

text \<open>
  C7, amended. The high score never decreases along any sequence of events. Whenever a
  tick changes the score, that is, newly passes at least one pipe, and the new score
  exceeds the high score, the high score becomes that score and its decimal text is
  stored at once; a tick that leaves the score as it was leaves high score and stored
  value as they were. From a state with \<open>score \<le> highScore\<close> the claim holds as stated,
  and every run that starts with a high score of at least 0 and a score not above it
  stays in such states.
\<close>

theorem C7_high_score:
  "highScore g \<le> highScore (run es g) \<and>
   (score (tick r g) \<noteq> score g \<and> highScore g < score (tick r g) \<longrightarrow>
      highScore (tick r g) = score (tick r g) \<and>
      storage (tick r g) = Some (toString (score (tick r g)))) \<and>
   (score g \<le> highScore g \<and> highScore g < score (tick r g) \<longrightarrow>
      highScore (tick r g) = score (tick r g) \<and>
      storage (tick r g) = Some (toString (score (tick r g)))) \<and>
   (score (tick r g) = score g \<longrightarrow>
      highScore (tick r g) = highScore g \<and> storage (tick r g) = storage g) \<and>
   (score g \<le> highScore g \<and> 0 \<le> highScore g \<longrightarrow>
      score (run es g) \<le> highScore (run es g))"
  using run_highScore [of g es] tick_scores [of r g] run_below [of g es]
  by (auto split: if_splits)

text \<open>
  Tick 381 of the sample run passes the first pipe: the score goes from 0 to 1, above
  the high score of 0, and \<^verbatim>\<open>1\<close> is stored.
\<close>

theorem C7_high_score_witness:
  "highScore (run (sample_run 10 @ Jump (1 / 2) # replicate 20 (Tick (1 / 2))) (initial None))
     = 0 \<and>
   score (tick (1 / 2)
     (run (sample_run 10 @ Jump (1 / 2) # replicate 20 (Tick (1 / 2))) (initial None))) = 1 \<and>
   highScore (tick (1 / 2)
     (run (sample_run 10 @ Jump (1 / 2) # replicate 20 (Tick (1 / 2))) (initial None))) = 1 \<and>
   storage (tick (1 / 2)
     (run (sample_run 10 @ Jump (1 / 2) # replicate 20 (Tick (1 / 2))) (initial None))) =
     Some (js ''1'')"
proof -
  define g where
    "g = run (sample_run 10 @ Jump (1 / 2) # replicate 20 (Tick (1 / 2))) (initial None)"
  have g: "g =
     \<lparr>bird = \<lparr>bird_x = 100, bird_y = 236, velocity = 1\<rparr>,
      pipes = [sample_pipe 40 False, sample_pipe 292 False, sample_pipe 544 False,
               sample_pipe 796 False],
      gameStarted = True, gameOver = False, score = 0, highScore = 0,
      gameWidth = 800, gameHeight = 600, storage = None\<rparr>"
    unfolding g_def by (rule sample_before_pass)
  have before: "score g = 0" "highScore g = 0"
    by (simp_all add: g)
  have after: "score (tick (1 / 2) g) = 1"
    by (simp add: g tick_eval)
  from C7_high_score [of g "[]" "1 / 2"] before after
  have "highScore (tick (1 / 2) g) = score (tick (1 / 2) g) \<and>
      storage (tick (1 / 2) g) = Some (toString (score (tick (1 / 2) g)))"
    by simp
  with before after have "highScore g = 0 \<and> score (tick (1 / 2) g) = 1 \<and>
      highScore (tick (1 / 2) g) = 1 \<and> storage (tick (1 / 2) g) = Some (js ''1'')"
    by (simp add: toString_1 js_literals)
  then show ?thesis
    unfolding g_def .
qed

section \<open>After the game is over\<close>

text \<open>
  C8. Once the game is over, tick and jump events change nothing: after any sequence of
  them the state, and with it the bird, the pipes and the score, is what it was. Only a
  reset leaves the state.
\<close>

theorem C8_over_frozen:
  "phase_of g = Over \<Longrightarrow> list_all playing es \<Longrightarrow> run es g = g"
proof (induction es)
  case Nil
  show ?case by simp
next
  case (Cons e es)
  from Cons.prems(1) have flags: "gameStarted g" "gameOver g"
    by (simp_all add: over_flags)
  from Cons.prems(2) have "step e g = g"
    using flags by (cases e) (simp_all add: tick_def jump_def checkCollisions_def)
  with Cons show ?case by simp
qed

text \<open>The state in which the bird of the sample fall has hit the ground.\<close>

theorem C8_over_frozen_witness:
  "phase_of (run (Jump (1 / 2) # replicate 38 (Tick (1 / 2))) (initial None)) = Over \<and>
   list_all playing [Tick (1 / 2), Jump (1 / 2), Tick (1 / 2)] \<and>
   run [Tick (1 / 2), Jump (1 / 2), Tick (1 / 2)]
     (run (Jump (1 / 2) # replicate 38 (Tick (1 / 2))) (initial None)) =
   run (Jump (1 / 2) # replicate 38 (Tick (1 / 2))) (initial None)"
proof -
  define g where "g = run (Jump (1 / 2) # replicate 38 (Tick (1 / 2))) (initial None)"
  have g: "g =
     \<lparr>bird = \<lparr>bird_x = 100, bird_y = 2832 / 5, velocity = 74 / 5\<rparr>,
      pipes = [sample_pipe 724 False],
      gameStarted = True, gameOver = True, score = 0, highScore = 0,
      gameWidth = 800, gameHeight = 600, storage = None\<rparr>"
    unfolding g_def by (rule sample_fall)
  have over: "phase_of g = Over"
    by (simp add: g phase_of_def)
  have events: "list_all playing [Tick (1 / 2), Jump (1 / 2), Tick (1 / 2)]"
    by simp
  from C8_over_frozen [OF over events] over events
  have "phase_of g = Over \<and> list_all playing [Tick (1 / 2), Jump (1 / 2), Tick (1 / 2)] \<and>
      run [Tick (1 / 2), Jump (1 / 2), Tick (1 / 2)] g = g"
    by (intro conjI)
  then show ?thesis
    unfolding g_def .
qed

section \<open>Loading the high score\<close>






section \<open>The two variants of the component\<close>

text \<open>The loop with accumulators computes what the recursion over the pipes computes.\<close>

lemma FlappyGame_loop_eq:
  "FlappyGame_loop b gh seen n ps =
     (case collisionLoop b gh ps of
        (collided, newPipes, newlyPassed) \<Rightarrow> (collided, seen @ newPipes, n + newlyPassed))"
  by (induction ps arbitrary: seen n)
    (auto simp: collides_def constants FlappyGame_constants split: prod.splits)

lemma FlappyGame_collisionEffect_eq: "FlappyGame_collisionEffect g = checkCollisions g"
  by (simp add: FlappyGame_collisionEffect_def checkCollisions_def FlappyGame_loop_eq
      split: prod.splits)

lemma FlappyGame_jump_eq: "FlappyGame_jump r g = jump r g"
  by (simp add: FlappyGame_jump_def jump_def constants FlappyGame_constants)

lemma FlappyGame_resetGame_eq: "FlappyGame_resetGame g = resetGame g"
  by (simp add: FlappyGame_resetGame_def resetGame_def)

lemma FlappyGame_handleResize_eq: "FlappyGame_handleResize w h g = handleResize w h g"
  by (simp add: FlappyGame_handleResize_def handleResize_def)

lemma FlappyGame_mount_eq: "FlappyGame_mount w h g = mount w h g"
  by (simp add: FlappyGame_mount_def mount_def loadHighScore_def Let_def)

lemma FlappyGame_gameLoop_eq: "FlappyGame_gameLoop r g = gameLoop r g"
  by (simp add: FlappyGame_gameLoop_def gameLoop_def birdUpdater_def pipesUpdater_def
      Let_def constants FlappyGame_constants)

lemma FlappyGame_tick_eq: "FlappyGame_tick r g = tick r g"
  by (simp add: FlappyGame_tick_def tick_def FlappyGame_collisionEffect_eq
      FlappyGame_gameLoop_eq)

lemma FlappyGame_step_eq: "FlappyGame_step e g = step e g"
  by (cases e)
    (simp_all add: FlappyGame_collisionEffect_eq FlappyGame_jump_eq FlappyGame_tick_eq
      FlappyGame_resetGame_eq FlappyGame_handleResize_eq)

lemma FlappyGame_run_eq: "FlappyGame_run es g = run es g"
  by (induction es arbitrary: g) (simp_all add: FlappyGame_step_eq)

text \<open>
  C10. The two variants of the component agree: from equal states, with equal window
  sizes and equal random draws, their initial state, mount effect, jump, reset, interval
  callback, collision and scoring effect, tick and whole runs give equal states.
\<close>

theorem C10_variants_agree:
  "FlappyGame_initial st = initial st \<and>
   FlappyGame_mount w h g = mount w h g \<and>
   FlappyGame_jump r g = jump r g \<and>
   FlappyGame_resetGame g = resetGame g \<and>
   FlappyGame_gameLoop r g = gameLoop r g \<and>
   FlappyGame_collisionEffect g = checkCollisions g \<and>
   FlappyGame_tick r g = tick r g \<and>
   FlappyGame_run es g = run es g"
  by (simp add: FlappyGame_initial_def initial_def FlappyGame_mount_eq FlappyGame_jump_eq
      FlappyGame_resetGame_eq FlappyGame_gameLoop_eq FlappyGame_collisionEffect_eq
      FlappyGame_tick_eq FlappyGame_run_eq)

text \<open>The second variant on the first four rounds of the sample run.\<close>

theorem C10_variants_agree_witness:
  "FlappyGame_run (sample_run 4) (FlappyGame_initial None) =
     sample_state (37 / 5) [sample_pipe 512 False, sample_pipe 764 False] 0 None"
proof -
  from C10_variants_agree [of None 800 600 "initial None" "1 / 2" "sample_run 4"]
  have "FlappyGame_run (sample_run 4) (FlappyGame_initial None) =
      run (sample_run 4) (initial None)"
    by simp
  then show ?thesis
    by (simp only: sample_run_4)
qed

end
